theory Spec2Isabelle
  imports Main "HOL-Library.Word"
begin

unbundle bit_operations_syntax

section \<open>The serial bootloader client of the notebook\<close>

text \<open>
  The class \<open>SerialBootloaderInterface\<close> talks to the ROM bootloader over a serial port.
  Python's \<open>bytes\<close> are lists of 8-bit words, Python's integers are \<open>int\<close>, and every
  exception the code can raise is a value of \<open>py_error\<close>.
\<close>

type_synonym byte = "8 word"

datatype py_error =
    ValueError string
  | AssertionError string
  | IndexError string
  | OverflowError string
  | KeyError string

subsection \<open>The serial port\<close>

text \<open>
  The port is the only state. \<open>pending\<close> lists what each coming
  \<open>ser.read(ser.in_waiting)\<close> finds buffered (nothing once the list is used up), so it
  ranges over every behaviour of the device; \<open>reply s k\<close> is what the read after the
  next \<open>k\<close> ones finds. \<open>trace\<close> records every call made on the port, oldest
  first.
\<close>

datatype event = FlushInput | Write "byte list" | Sleep | Read "byte list"

record port =
  pending :: "byte list list"
  trace :: "event list"

definition ser_flushInput :: "port \<Rightarrow> port" where
  "ser_flushInput s = s\<lparr>trace := trace s @ [FlushInput]\<rparr>"

definition ser_write :: "byte list \<Rightarrow> port \<Rightarrow> port" where
  "ser_write bs s = s\<lparr>trace := trace s @ [Write bs]\<rparr>"

definition sleep :: "port \<Rightarrow> port" where
  "sleep s = s\<lparr>trace := trace s @ [Sleep]\<rparr>"

definition reply :: "port \<Rightarrow> nat \<Rightarrow> byte list" where
  "reply s k = (case drop k (pending s) of [] \<Rightarrow> [] | r # rs \<Rightarrow> r)"

definition read_in_waiting :: "port \<Rightarrow> byte list \<times> port" where
  "read_in_waiting s =
     (reply s 0, s\<lparr>pending := tl (pending s), trace := trace s @ [Read (reply s 0)]\<rparr>)"

text \<open>The calls a run has added to the trace, and the frames written among them.\<close>

definition new_events :: "port \<Rightarrow> port \<Rightarrow> event list" where
  "new_events s s' = drop (length (trace s)) (trace s')"

fun written :: "event list \<Rightarrow> byte list list" where
  "written [] = []"
| "written (Write bs # es) = bs # written es"
| "written (e # es) = written es"

subsection \<open>Python primitives the class uses\<close>

definition hex_digit :: "nat \<Rightarrow> char" where
  "hex_digit d = ''0123456789abcdef'' ! d"

definition hex_byte :: "byte \<Rightarrow> string" where
  "hex_byte b = [hex_digit (unat b div 16), hex_digit (unat b mod 16)]"

text \<open>\<open>bytes.hex()\<close>: two lower-case digits for each byte.\<close>

definition bytes_hex :: "byte list \<Rightarrow> string" where
  "bytes_hex bs = concat (map hex_byte bs)"

fun repr_nat :: "nat \<Rightarrow> string" where
  "repr_nat n = (if n < 10 then [''0123456789'' ! n]
                 else repr_nat (n div 10) @ [''0123456789'' ! (n mod 10)])"

text \<open>\<open>int.to_bytes(4, byteorder='big')\<close>, which raises outside \<open>0 .. 2^32 - 1\<close>.\<close>

definition to_bytes4 :: "int \<Rightarrow> py_error + byte list" where
  "to_bytes4 a =
     (if a < 0 then Inl (OverflowError ''can't convert negative int to unsigned'')
      else if 2 ^ 32 \<le> a then Inl (OverflowError ''int too big to convert'')
      else Inr [word_of_int (a div 2 ^ 24), word_of_int (a div 2 ^ 16),
                word_of_int (a div 2 ^ 8), word_of_int a])"

text \<open>\<open>bytearray([...])\<close> of integers, which raises when one is outside \<open>0 .. 255\<close>.\<close>

definition bytearray_of :: "int list \<Rightarrow> py_error + byte list" where
  "bytearray_of ns =
     (if \<forall>n \<in> set ns. 0 \<le> n \<and> n < 256 then Inr (map word_of_int ns)
      else Inl (ValueError ''byte must be in range(0, 256)''))"

text \<open>\<open>bytes.find(b, 0)\<close>: the lowest index holding \<open>b\<close>, or \<open>-1\<close>.\<close>

fun bytes_find :: "byte list \<Rightarrow> byte \<Rightarrow> int" where
  "bytes_find [] b = - 1"
| "bytes_find (x # xs) b =
     (if x = b then 0 else (let r = bytes_find xs b in if r < 0 then - 1 else r + 1))"

text \<open>The slice \<open>xs[i:j]\<close>, negative bounds counted from the end, both clamped.\<close>

definition py_slice :: "'a list \<Rightarrow> int \<Rightarrow> int \<Rightarrow> 'a list" where
  "py_slice xs i j =
     (let n = int (length xs);
          lo = (if i < 0 then max 0 (i + n) else min i n);
          hi = (if j < 0 then max 0 (j + n) else min j n)
      in take (nat (hi - lo)) (drop (nat lo) xs))"

text \<open>\<open>list.index(x)\<close>, which raises when \<open>x\<close> is absent.\<close>

fun list_index :: "byte list \<Rightarrow> byte \<Rightarrow> nat option" where
  "list_index [] x = None"
| "list_index (y # ys) x =
     (if y = x then Some 0 else map_option Suc (list_index ys x))"

subsection \<open>Constants of the class\<close>

definition ACK :: "byte list" where
  "ACK = [0x00, 0xCC]"

definition NACK :: "byte list" where
  "NACK = [0x00, 0x33]"

definition status_val :: "(string \<times> byte) list" where
  "status_val =
     [(''COMMAND_RET_SUCCESS'', 0x40),
      (''COMMAND_RET_UNKNOWN_CMD'', 0x41),
      (''COMMAND_RET_INVALID_CMD'', 0x42),
      (''COMMAND_RET_INVALID_ADR'', 0x43),
      (''COMMAND_RET_FLASH_FAIL'', 0x44)]"

subsection \<open>The methods\<close>

definition get_chip_id :: "port \<Rightarrow> byte list \<times> port" where
  "get_chip_id s =
     (let s1 = ser_flushInput s;
          s2 = ser_write [0x03, 0x28, 0x28] s1;
          s3 = sleep s2;
          (resp, s4) = read_in_waiting s3;
          s5 = ser_write [0xCC] s4
      in (resp, s5))"

text \<open>
  \<open>__init__\<close>, from the freshly opened port on. The two \<open>print\<close> calls are left out;
  the chip identifier query they make is not.
\<close>

definition init :: "port \<Rightarrow> (py_error + unit) \<times> port" where
  "init s =
     (let s1 = ser_write [0x55, 0x55] s;
          s2 = sleep s1;
          (ret, s3) = read_in_waiting s2
      in if ret \<noteq> ACK
         then (Inl (ValueError
                 (''Expected the bootloader to reply with 00CC, instead it replied with: ''
                  @ bytes_hex ret)), s3)
         else (let (ident, s4) = get_chip_id s3 in (Inr (), s4)))"

definition ping :: "port \<Rightarrow> (py_error + byte list) \<times> port" where
  "ping s =
     (let s1 = ser_flushInput s;
          s2 = ser_write [0x03, 0x20, 0x20] s1;
          s3 = sleep s2;
          (ret, s4) = read_in_waiting s3
      in if ret = ACK then (Inr ret, s4)
         else (Inl (AssertionError ''Ping command was not acknowledged by device''), s4))"

text \<open>\<open>list(resp)[-1]\<close> raises on the empty response.\<close>

definition get_status :: "port \<Rightarrow> (py_error + byte) \<times> port" where
  "get_status s =
     (let s1 = ser_flushInput s;
          s2 = ser_write [0x03, 0x23, 0x23] s1;
          s3 = sleep s2;
          (resp, s4) = read_in_waiting s3;
          s5 = ser_write [0xCC] s4
      in (if resp = [] then Inl (IndexError ''list index out of range'')
          else Inr (last resp), s5))"

text \<open>The first lines of \<open>read_memory_block\<close>: command body, checksum and packet.\<close>

definition payload_of :: "int \<Rightarrow> int \<Rightarrow> py_error + byte list" where
  "payload_of addr no_of_access =
     (case to_bytes4 addr of
        Inl e \<Rightarrow> Inl e
      | Inr ab \<Rightarrow>
          (case bytearray_of [0x0, no_of_access] of
             Inl e \<Rightarrow> Inl e
           | Inr tl_bytes \<Rightarrow> Inr ([0x2A] @ ab @ tl_bytes)))"

definition chk_of :: "byte list \<Rightarrow> int" where
  "chk_of payload = (fold (\<lambda>b chk. chk + uint b) payload 0) AND 0xff"

definition packet_of :: "int \<Rightarrow> int \<Rightarrow> py_error + byte list" where
  "packet_of addr no_of_access =
     (case payload_of addr no_of_access of
        Inl e \<Rightarrow> Inl e
      | Inr payload \<Rightarrow>
          (case bytearray_of [9, chk_of payload] of
             Inl e \<Rightarrow> Inl e
           | Inr hd_bytes \<Rightarrow> Inr (hd_bytes @ payload)))"

text \<open>
  The name looked up for the error message:
  \<open>list(status_val.keys())[list(status_val.values()).index(status)]\<close>.
\<close>

definition status_name :: "byte \<Rightarrow> py_error + string" where
  "status_name status =
     (case list_index (map snd status_val) status of
        None \<Rightarrow> Inl (ValueError (repr_nat (unat status) @ '' is not in list''))
      | Some i \<Rightarrow> Inr (map fst status_val ! i))"

definition read_memory_block :: "port \<Rightarrow> int \<Rightarrow> int \<Rightarrow> (py_error + byte list) \<times> port" where
  "read_memory_block s addr no_of_access =
     (case packet_of addr no_of_access of
        Inl e \<Rightarrow> (Inl e, s)
      | Inr packet \<Rightarrow>
          (let s1 = ser_flushInput s;
               s2 = ser_write packet s1;
               s3 = sleep s2;
               (resp, s4) = read_in_waiting s3;
               s5 = ser_write [0x00, 0xCC] s4;
               ind = bytes_find resp 0xCC + 3;
               resp' = py_slice resp ind (ind + no_of_access)
           in (case get_status s5 of
                 (Inl e, s6) \<Rightarrow> (Inl e, s6)
               | (Inr status, s6) \<Rightarrow>
                   (case map_of status_val ''COMMAND_RET_SUCCESS'' of
                      None \<Rightarrow> (Inl (KeyError ''COMMAND_RET_SUCCESS''), s6)
                    | Some ok \<Rightarrow>
                        if status \<noteq> ok then
                          (case status_name status of
                             Inl e \<Rightarrow> (Inl e, s6)
                           | Inr name \<Rightarrow> (Inl (ValueError (''ERROR! status:'' @ name)), s6))
                        else if int (length resp') = no_of_access then (Inr resp', s6)
                        else (Inl (AssertionError ''Did not receive all bytes...''), s6)))))"

text \<open>
  The loop of \<open>read_memory_region\<close> over \<open>range(blocks)\<close>, with the loop variables
  \<open>addr_start\<close> and \<open>data\<close>; then the method itself. Progress output is left out.
\<close>

fun read_full_blocks ::
    "port \<Rightarrow> nat \<Rightarrow> int \<Rightarrow> byte list \<Rightarrow> (py_error + int \<times> byte list) \<times> port" where
  "read_full_blocks s 0 addr_start data = (Inr (addr_start, data), s)"
| "read_full_blocks s (Suc k) addr_start data =
     (case read_memory_block s addr_start 253 of
        (Inl e, s') \<Rightarrow> (Inl e, s')
      | (Inr block, s') \<Rightarrow> read_full_blocks s' k (addr_start + 253) (data @ block))"

definition read_memory_region :: "port \<Rightarrow> int \<Rightarrow> int \<Rightarrow> (py_error + byte list) \<times> port" where
  "read_memory_region s addr_start addr_stop =
     (let blocks = (addr_stop - addr_start) div 253
      in (case read_full_blocks s (nat blocks) addr_start [] of
            (Inl e, s') \<Rightarrow> (Inl e, s')
          | (Inr (addr_start', data), s') \<Rightarrow>
              (case read_memory_block s' addr_start' (addr_stop - addr_start') of
                 (Inl e, s'') \<Rightarrow> (Inl e, s'')
               | (Inr block, s'') \<Rightarrow> (Inr (data @ block), s''))))"

subsection \<open>The specification's words, for comparison with the code\<close>

text \<open>
  The frame as the specification words it: the body prefixed with "the total body length"
  and the sum of the body's bytes modulo 256.
\<close>

definition spec_frame :: "byte list \<Rightarrow> byte list" where
  "spec_frame body =
     [word_of_int (int (length body)), word_of_int (sum_list (map uint body) mod 256)] @ body"

text \<open>
  The block reads of a region as the specification lists them: \<open>(stop - start) div 253\<close>
  full blocks of 253 bytes at consecutive addresses, then one block for the remainder.
\<close>

definition block_plan :: "int \<Rightarrow> int \<Rightarrow> (int \<times> int) list" where
  "block_plan start stop =
     map (\<lambda>i. (start + 253 * int i, 253)) [0 ..< nat ((stop - start) div 253)]
     @ [(start + 253 * ((stop - start) div 253), (stop - start) mod 253)]"

text \<open>Block reads issued one after the other, stopping at the first that fails.\<close>

fun read_each :: "port \<Rightarrow> (int \<times> int) list \<Rightarrow> (py_error + byte list list) \<times> port" where
  "read_each s [] = (Inr [], s)"
| "read_each s ((a, n) # plan) =
     (case read_memory_block s a n of
        (Inl e, s') \<Rightarrow> (Inl e, s')
      | (Inr block, s') \<Rightarrow>
          (case read_each s' plan of
             (Inl e, s'') \<Rightarrow> (Inl e, s'')
           | (Inr blocks, s'') \<Rightarrow> (Inr (block # blocks), s'')))"

text \<open>The frames one successful block read writes: request, acknowledgment, status query
  and its acknowledgment.\<close>

definition block_frames :: "int \<times> int \<Rightarrow> byte list list" where
  "block_frames an =
     (case packet_of (fst an) (snd an) of
        Inl e \<Rightarrow> []
      | Inr p \<Rightarrow> [p, [0x00, 0xCC], [0x03, 0x23, 0x23], [0xCC]])"

subsection \<open>A device that answers\<close>

text \<open>
  The coming replies serve a plan of block reads when they hold, for each block in turn,
  a data response with the count bytes from the marker offset on, and a status response
  that ends in \<open>0x40\<close>.
\<close>

fun answers :: "byte list list \<Rightarrow> (int \<times> int) list \<Rightarrow> bool" where
  "answers rs [] = True"
| "answers rs ((a, n) # plan) =
     (case rs of
        resp # st # rest \<Rightarrow>
          st \<noteq> [] \<and> last st = 0x40
          \<and> int (length (py_slice resp (bytes_find resp 0xCC + 3)
                              (bytes_find resp 0xCC + 3 + n))) = n
          \<and> answers rest plan
      | _ \<Rightarrow> False)"

section \<open>Properties\<close>

subsection \<open>What one call does on the port\<close>

lemma map_of_success: "map_of status_val ''COMMAND_RET_SUCCESS'' = Some 0x40"
  by (simp add: status_val_def)

lemma reply_trace_upd: "reply (s\<lparr>trace := t\<rparr>) k = reply s k"
  by (simp add: reply_def)

lemma reply_pending_tl: "reply (s\<lparr>pending := tl (pending s)\<rparr>) k = reply s (Suc k)"
  by (cases "pending s") (simp_all add: reply_def)

lemma get_status_run:
  "get_status s =
     (if reply s 0 = [] then Inl (IndexError ''list index out of range'')
      else Inr (last (reply s 0)),
      s\<lparr>pending := tl (pending s),
        trace := trace s @ [FlushInput, Write [0x03, 0x23, 0x23], Sleep, Read (reply s 0),
                            Write [0xCC]]\<rparr>)"
  by (simp add: get_status_def ser_flushInput_def ser_write_def sleep_def read_in_waiting_def
      reply_def)

lemma read_memory_block_run:
  assumes "packet_of a n = Inr p"
  shows "read_memory_block s a n =
     ((let resp = reply s 0; ind = bytes_find resp 0xCC + 3;
           payload = py_slice resp ind (ind + n)
       in if reply s 1 = [] then Inl (IndexError ''list index out of range'')
          else if last (reply s 1) \<noteq> 0x40 then
            (case status_name (last (reply s 1)) of
               Inl e \<Rightarrow> Inl e
             | Inr name \<Rightarrow> Inl (ValueError (''ERROR! status:'' @ name)))
          else if int (length payload) = n then Inr payload
          else Inl (AssertionError ''Did not receive all bytes...'')),
      s\<lparr>pending := tl (tl (pending s)),
        trace := trace s @ [FlushInput, Write p, Sleep, Read (reply s 0), Write [0x00, 0xCC],
                   FlushInput, Write [0x03, 0x23, 0x23], Sleep, Read (reply s 1), Write [0xCC]]\<rparr>)"
  using assms
  by (simp add: read_memory_block_def get_status_run map_of_success Let_def
      ser_flushInput_def ser_write_def sleep_def read_in_waiting_def reply_trace_upd reply_pending_tl split: sum.splits)

lemma read_memory_block_reject:
  assumes "packet_of a n = Inl e"
  shows "read_memory_block s a n = (Inl e, s)"
  using assms by (simp add: read_memory_block_def)

subsection \<open>Body, checksum and packet\<close>

lemma fold_uint_sum: "fold (\<lambda>b chk. chk + uint b) xs acc = acc + sum_list (map uint xs)"
  by (induction xs arbitrary: acc) simp_all

lemma and_255_mod: "(x::int) AND 0xff = x mod 256"
proof -
  have "x AND mask 8 = x mod 2 ^ 8"
    by (simp only: take_bit_eq_mask [symmetric] take_bit_eq_mod)
  then show ?thesis by (simp add: mask_eq_exp_minus_1)
qed

lemma chk_of_mod: "chk_of payload = sum_list (map uint payload) mod 256"
  by (simp add: chk_of_def fold_uint_sum and_255_mod)

lemma chk_of_range: "0 \<le> chk_of payload \<and> chk_of payload < 256"
  by (simp add: chk_of_mod)

lemma chk_of_word: "(word_of_int (chk_of payload) :: byte) = sum_list payload"
proof -
  have "(word_of_int (sum_list (map uint payload)) :: byte) = sum_list payload"
    by (induction payload) simp_all
  moreover have "(word_of_int (sum_list (map uint payload) mod 256) :: byte)
      = word_of_int (sum_list (map uint payload))"
    by (simp add: word_of_int_eq_iff take_bit_eq_mod)
  ultimately show ?thesis by (simp add: chk_of_mod)
qed

lemma payload_of_valid:
  assumes "0 \<le> a" "a < 2 ^ 32" "0 \<le> n" "n < 256"
  shows "payload_of a n =
     Inr [0x2A, word_of_int (a div 2 ^ 24), word_of_int (a div 2 ^ 16),
          word_of_int (a div 2 ^ 8), word_of_int a, 0x00, word_of_int n]"
  using assms by (simp add: payload_of_def to_bytes4_def bytearray_of_def)

lemma packet_of_payload:
  "packet_of a n =
     (case payload_of a n of Inl e \<Rightarrow> Inl e
      | Inr body \<Rightarrow> Inr ([9, word_of_int (chk_of body)] @ body))"
  using chk_of_range
  by (simp add: packet_of_def bytearray_of_def split: sum.splits)

lemma payload_of_count_too_big:
  assumes "255 < n"
  shows "\<exists>e. payload_of a n = Inl e"
  using assms by (simp add: payload_of_def to_bytes4_def bytearray_of_def)

lemma sum_list_upd:
  fixes xs :: "byte list"
  shows "i < length xs \<Longrightarrow> sum_list (xs[i := v]) = sum_list xs - xs ! i + v"
  by (induction xs arbitrary: i) (auto split: nat.splits)

subsection \<open>Marker search and slicing\<close>

lemma bytes_find_absent: "b \<notin> set xs \<Longrightarrow> bytes_find xs b = - 1"
  by (induction xs) (auto simp add: Let_def)

lemma bytes_find_present:
  "b \<in> set xs \<Longrightarrow> bytes_find xs b = int (length (takeWhile (\<lambda>x. x \<noteq> b) xs))"
  by (induction xs) (auto simp add: Let_def)

lemma bytes_find_lower: "- 1 \<le> bytes_find xs b"
  by (induction xs) (simp_all add: Let_def)

lemma first_marker:
  assumes "b \<in> set xs"
  shows "xs ! length (takeWhile (\<lambda>x. x \<noteq> b) xs) = b
         \<and> (\<forall>j < length (takeWhile (\<lambda>x. x \<noteq> b) xs). xs ! j \<noteq> b)"
  using assms
proof (induction xs)
  case Nil
  then show ?case by simp
next
  case (Cons x xs)
  show ?case
  proof (cases "x = b")
    case True
    then show ?thesis by simp
  next
    case False
    with Cons have ih: "xs ! length (takeWhile (\<lambda>x. x \<noteq> b) xs) = b
         \<and> (\<forall>j < length (takeWhile (\<lambda>x. x \<noteq> b) xs). xs ! j \<noteq> b)"
      by simp
    with False show ?thesis
      by (auto simp add: nth_Cons split: nat.splits)
  qed
qed

lemma py_slice_forward:
  assumes "0 \<le> i" "0 \<le> n"
  shows "py_slice xs i (i + n) = take (nat n) (drop (nat i) xs)"
proof -
  consider "i + n \<le> int (length xs)"
    | "i \<le> int (length xs)" "int (length xs) < i + n"
    | "int (length xs) < i"
    by linarith
  then show ?thesis
  proof cases
    case 1
    then show ?thesis
      using assms by (simp add: py_slice_def Let_def min_def)
  next
    case 2
    then have "length (drop (nat i) xs) \<le> nat n"
      using assms by simp
    then have "take (nat n) (drop (nat i) xs) = drop (nat i) xs"
      by (rule take_all)
    moreover have "take (nat (int (length xs) - i)) (drop (nat i) xs) = drop (nat i) xs"
      using assms 2 by (intro take_all) simp
    ultimately show ?thesis
      using assms 2 by (simp add: py_slice_def Let_def min_def)
  next
    case 3
    then show ?thesis
      using assms by (simp add: py_slice_def Let_def min_def)
  qed
qed

subsection \<open>The frame of a block read\<close>

lemma first_frame_written:
  assumes "packet_of a n = Inr p"
  shows "written (new_events s (snd (read_memory_block s a n)))
         = [p, [0x00, 0xCC], [0x03, 0x23, 0x23], [0xCC]]"
  using assms by (simp add: read_memory_block_run new_events_def)

lemma be_bytes:
  assumes "0 \<le> a" "a < 2 ^ 32"
  shows "uint (word_of_int (a div 2 ^ 24) :: byte) * 2 ^ 24
       + uint (word_of_int (a div 2 ^ 16) :: byte) * 2 ^ 16
       + uint (word_of_int (a div 2 ^ 8) :: byte) * 2 ^ 8
       + uint (word_of_int a :: byte) = a"
proof -
  define b where "b = a div 256"
  define c where "c = b div 256"
  define d where "d = c div 256"
  have c16: "a div 2 ^ 16 = c"
    unfolding c_def b_def by (simp add: zdiv_zmult2_eq)
  have d24: "a div 2 ^ 24 = d"
    unfolding d_def c_def b_def by (simp add: zdiv_zmult2_eq)
  have b8: "a div 2 ^ 8 = b"
    unfolding b_def by simp
  have ea: "a = 256 * b + a mod 256" unfolding b_def by simp
  have eb: "b = 256 * c + b mod 256" unfolding c_def by simp
  have ec: "c = 256 * d + c mod 256" unfolding d_def by simp
  have "0 \<le> d" "d < 256"
    using assms unfolding d24 [symmetric] by simp_all
  then have ed: "d mod 256 = d" by simp
  have u: "\<And>x. uint (word_of_int x :: byte) = x mod 256"
    by (simp add: uint_word_of_int)
  have "(d mod 256) * 2 ^ 24 + (c mod 256) * 2 ^ 16 + (b mod 256) * 2 ^ 8 + a mod 256 = a"
    unfolding ed using ea eb ec by simp
  then show ?thesis
    unfolding u b8 c16 d24 .
qed

text \<open>
  The first byte of the frame is not the length of the body. Reading 253 bytes at
  \<open>0x10000000\<close>, the body has 7 bytes and the frame starts with 9, where the wording
  "total body length" gives 7.
\<close>

theorem read_memory_block_frame_counterexample:
  "hd (written (new_events \<lparr>pending = [], trace = []\<rparr>
         (snd (read_memory_block \<lparr>pending = [], trace = []\<rparr> 0x10000000 253))))
     = [9, 0x37, 0x2A, 0x10, 0x00, 0x00, 0x00, 0x00, 0xFD]
   \<and> spec_frame [0x2A, 0x10, 0x00, 0x00, 0x00, 0x00, 0xFD]
     = [7, 0x37, 0x2A, 0x10, 0x00, 0x00, 0x00, 0x00, 0xFD]
   \<and> hd (written (new_events \<lparr>pending = [], trace = []\<rparr>
         (snd (read_memory_block \<lparr>pending = [], trace = []\<rparr> 0x10000000 253))))
     \<noteq> spec_frame [0x2A, 0x10, 0x00, 0x00, 0x00, 0x00, 0xFD]"
  by (simp add: read_memory_block_def packet_of_def payload_of_def to_bytes4_def bytearray_of_def
      chk_of_def spec_frame_def new_events_def get_status_def ser_flushInput_def ser_write_def
      sleep_def read_in_waiting_def reply_def status_val_def status_name_def Let_def)

text \<open>
  Claim C2, amended. For every address that fits in 4 bytes and every count from 1 to 253,
  the frame \<open>read_memory_block\<close> writes is the body: opcode \<open>2A\<close>, the address in 4
  bytes with the most significant first, access type \<open>00\<close>, the count; prefixed by two
  bytes: the constant 9, which is the length of the whole frame (the 7 bytes of the body
  and the two of the prefix), and the sum of the body's bytes modulo 256.
\<close>

theorem read_memory_block_frame:
  assumes "0 \<le> a" "a < 2 ^ 32" "1 \<le> n" "n \<le> 253"
  shows "(let a3 = word_of_int (a div 2 ^ 24) :: byte; a2 = word_of_int (a div 2 ^ 16) :: byte;
              a1 = word_of_int (a div 2 ^ 8) :: byte; a0 = word_of_int a :: byte;
              body = [0x2A, a3, a2, a1, a0, 0x00, word_of_int n];
              cs = word_of_int (sum_list (map uint body) mod 256)
          in hd (written (new_events s (snd (read_memory_block s a n)))) = [9, cs] @ body
             \<and> uint a3 * 2 ^ 24 + uint a2 * 2 ^ 16 + uint a1 * 2 ^ 8 + uint a0 = a
             \<and> uint (word_of_int n :: byte) = n
             \<and> uint cs = sum_list (map uint body) mod 256
             \<and> length ([9, cs] @ body) = 9 \<and> length body = 7)"
proof -
  let ?body = "[0x2A, word_of_int (a div 2 ^ 24), word_of_int (a div 2 ^ 16),
          word_of_int (a div 2 ^ 8), word_of_int a, 0x00, word_of_int n] :: byte list"
  let ?cs = "word_of_int (sum_list (map uint ?body) mod 256) :: byte"
  have body: "payload_of a n = Inr ?body"
    using assms by (simp add: payload_of_valid)
  then have pk: "packet_of a n = Inr ([9, ?cs] @ ?body)"
    by (simp only: packet_of_payload chk_of_mod sum.case)
  have fr: "hd (written (new_events s (snd (read_memory_block s a n)))) = [9, ?cs] @ ?body"
    by (simp only: first_frame_written [OF pk] list.sel)
  have cs: "uint ?cs = sum_list (map uint ?body) mod 256"
    by (simp only: uint_word_of_int) simp
  have n: "uint (word_of_int n :: byte) = n"
    using assms by (simp add: uint_word_of_int)
  have len: "length ([9, ?cs] @ ?body) = 9 \<and> length ?body = 7"
    by simp
  note be = be_bytes [OF assms(1,2)]
  show ?thesis
    unfolding Let_def
    by (intro conjI) (rule fr be n cs conjunct1 [OF len] conjunct2 [OF len])+
qed

theorem read_memory_block_frame_witness:
  "hd (written (new_events \<lparr>pending = [], trace = []\<rparr>
         (snd (read_memory_block \<lparr>pending = [], trace = []\<rparr> 0x10000000 253))))
     = [9, 0x37, 0x2A, 0x10, 0x00, 0x00, 0x00, 0x00, 0xFD]"
  using read_memory_block_frame [of "0x10000000" 253 "\<lparr>pending = [], trace = []\<rparr>"]
  by (simp add: Let_def)


subsection \<open>The status query\<close>

text \<open>
  Claim C10. \<open>get_status()\<close> needs a non-empty response: when the read finds at least one
  byte it returns the last byte of the response, and when the read finds nothing the
  last-element access raises \<open>IndexError\<close>, not an error of the protocol. In both cases
  the status frame \<open>03 23 23\<close> and the byte \<open>CC\<close> have been written.
\<close>

theorem get_status_last_byte:
  "(reply s 0 \<noteq> [] \<longrightarrow> fst (get_status s) = Inr (last (reply s 0)))
   \<and> (reply s 0 = [] \<longrightarrow> fst (get_status s) = Inl (IndexError ''list index out of range''))
   \<and> new_events s (snd (get_status s))
       = [FlushInput, Write [0x03, 0x23, 0x23], Sleep, Read (reply s 0), Write [0xCC]]"
  by (simp add: get_status_run new_events_def)

theorem get_status_last_byte_witness:
  "fst (get_status \<lparr>pending = [[0x00, 0xCC, 0x03, 0x43, 0x43]], trace = []\<rparr>) = Inr 0x43
   \<and> fst (get_status \<lparr>pending = [], trace = []\<rparr>) = Inl (IndexError ''list index out of range'')
   \<and> fst (get_status \<lparr>pending = [[]], trace = []\<rparr>) = Inl (IndexError ''list index out of range'')"
  using get_status_last_byte [of "\<lparr>pending = [[0x00, 0xCC, 0x03, 0x43, 0x43]], trace = []\<rparr>"]
    get_status_last_byte [of "\<lparr>pending = [], trace = []\<rparr>"]
    get_status_last_byte [of "\<lparr>pending = [[]], trace = []\<rparr>"]
  by (simp add: reply_def)

subsection \<open>The handshake\<close>

text \<open>
  Claim C3. Construction succeeds exactly when the reply read after the sync pattern
  \<open>55 55\<close> is the token \<open>00 CC\<close>. For every other reply, the empty one included, it
  raises the error whose message ends with the reply in hexadecimal (the code raises
  \<open>ValueError\<close> for it), and the port has seen one write of the sync pattern, the pause
  and the read, and nothing else: no second attempt.
\<close>

theorem init_handshake:
  "fst (init s) =
     (if reply s 0 = ACK then Inr ()
      else Inl (ValueError
             (''Expected the bootloader to reply with 00CC, instead it replied with: ''
              @ bytes_hex (reply s 0))))
   \<and> (reply s 0 \<noteq> ACK \<longrightarrow>
        new_events s (snd (init s)) = [Write [0x55, 0x55], Sleep, Read (reply s 0)])"
  by (simp add: init_def get_chip_id_def Let_def ser_flushInput_def ser_write_def sleep_def
      read_in_waiting_def reply_def new_events_def split: prod.splits)

theorem init_handshake_witness:
  "fst (init \<lparr>pending = [[0x00, 0xCC], [0x00, 0xCC, 0x06, 0x42]], trace = []\<rparr>) = Inr ()
   \<and> fst (init \<lparr>pending = [], trace = []\<rparr>)
       = Inl (ValueError ''Expected the bootloader to reply with 00CC, instead it replied with: '')
   \<and> new_events \<lparr>pending = [], trace = []\<rparr> (snd (init \<lparr>pending = [], trace = []\<rparr>))
       = [Write [0x55, 0x55], Sleep, Read []]
   \<and> fst (init \<lparr>pending = [[0x00, 0x33]], trace = []\<rparr>)
       = Inl (ValueError ''Expected the bootloader to reply with 00CC, instead it replied with: 0033'')"
  using init_handshake [of "\<lparr>pending = [[0x00, 0xCC], [0x00, 0xCC, 0x06, 0x42]], trace = []\<rparr>"]
    init_handshake [of "\<lparr>pending = [], trace = []\<rparr>"]
    init_handshake [of "\<lparr>pending = [[0x00, 0x33]], trace = []\<rparr>"]
  by (simp add: reply_def ACK_def bytes_hex_def hex_byte_def hex_digit_def)

subsection \<open>Counts above 253\<close>

text \<open>
  A count of 254 is above 253 and is not rejected: the request frame, the acknowledgment
  and the status query are all written to the port, which is left changed.
\<close>

theorem read_memory_block_count_254_counterexample:
  "written (new_events \<lparr>pending = [], trace = []\<rparr>
      (snd (read_memory_block \<lparr>pending = [], trace = []\<rparr> 0x10000000 254)))
     = [[9, 0x38, 0x2A, 0x10, 0x00, 0x00, 0x00, 0x00, 0xFE], [0x00, 0xCC],
        [0x03, 0x23, 0x23], [0xCC]]
   \<and> snd (read_memory_block \<lparr>pending = [], trace = []\<rparr> 0x10000000 254)
       \<noteq> \<lparr>pending = [], trace = []\<rparr>"
  by (simp add: read_memory_block_def packet_of_def payload_of_def to_bytes4_def bytearray_of_def
      chk_of_def new_events_def get_status_def ser_flushInput_def ser_write_def
      sleep_def read_in_waiting_def reply_def status_val_def status_name_def Let_def)

text \<open>
  Claim C5, amended. For every count above 255, \<open>read_memory_block\<close> fails before any
  call on the port: the port is returned as it was, and for an address that fits in 4
  bytes the error is the range error of the byte conversion. A count of 254 or 255 is not
  rejected: its frame is written like that of any smaller count.
\<close>

theorem read_memory_block_count_guard:
  "(255 < c \<longrightarrow>
      snd (read_memory_block s a c) = s \<and> (\<exists>e. fst (read_memory_block s a c) = Inl e))
   \<and> (255 < c \<and> 0 \<le> a \<and> a < 2 ^ 32 \<longrightarrow>
      fst (read_memory_block s a c) = Inl (ValueError ''byte must be in range(0, 256)''))
   \<and> (253 < c \<and> c \<le> 255 \<and> 0 \<le> a \<and> a < 2 ^ 32 \<longrightarrow>
      (\<exists>p. written (new_events s (snd (read_memory_block s a c)))
             = [p, [0x00, 0xCC], [0x03, 0x23, 0x23], [0xCC]]))"
proof -
  have reject: "snd (read_memory_block s a c) = s \<and> (\<exists>e. fst (read_memory_block s a c) = Inl e)"
    if big: "255 < c"
  proof -
    obtain e where "payload_of a c = Inl e"
      using payload_of_count_too_big [OF big] by blast
    then have "packet_of a c = Inl e"
      by (simp add: packet_of_payload)
    then show ?thesis
      by (simp add: read_memory_block_reject)
  qed
  have range: "fst (read_memory_block s a c) = Inl (ValueError ''byte must be in range(0, 256)'')"
    if "255 < c \<and> 0 \<le> a \<and> a < 2 ^ 32"
  proof -
    have "packet_of a c = Inl (ValueError ''byte must be in range(0, 256)'')"
      using that by (simp add: packet_of_payload payload_of_def to_bytes4_def bytearray_of_def)
    then show ?thesis
      by (simp add: read_memory_block_reject)
  qed
  have sent: "\<exists>p. written (new_events s (snd (read_memory_block s a c)))
             = [p, [0x00, 0xCC], [0x03, 0x23, 0x23], [0xCC]]"
    if ok: "253 < c \<and> c \<le> 255 \<and> 0 \<le> a \<and> a < 2 ^ 32"
  proof -
    obtain p where "packet_of a c = Inr p"
      using ok by (simp add: packet_of_payload payload_of_valid)
    then show ?thesis
      by (auto simp add: first_frame_written)
  qed
  from reject range sent show ?thesis by blast
qed

theorem read_memory_block_count_guard_witness:
  "snd (read_memory_block \<lparr>pending = [[0x00, 0xCC]], trace = []\<rparr> 0x10000000 256)
     = \<lparr>pending = [[0x00, 0xCC]], trace = []\<rparr>
   \<and> fst (read_memory_block \<lparr>pending = [[0x00, 0xCC]], trace = []\<rparr> 0x10000000 256)
     = Inl (ValueError ''byte must be in range(0, 256)'')
   \<and> (\<exists>p. written (new_events \<lparr>pending = [[0x00, 0xCC]], trace = []\<rparr>
               (snd (read_memory_block \<lparr>pending = [[0x00, 0xCC]], trace = []\<rparr> 0x10000000 255)))
           = [p, [0x00, 0xCC], [0x03, 0x23, 0x23], [0xCC]])"
  using read_memory_block_count_guard
          [of 256 "\<lparr>pending = [[0x00, 0xCC]], trace = []\<rparr>" "0x10000000"]
        read_memory_block_count_guard
          [of 255 "\<lparr>pending = [[0x00, 0xCC]], trace = []\<rparr>" "0x10000000"]
  by simp

subsection \<open>The acknowledgment after the data\<close>

text \<open>
  After the read of the response, the write that follows carries two bytes, \<open>00 CC\<close>,
  not the single byte \<open>CC\<close>.
\<close>

theorem read_memory_block_ack_counterexample:
  "new_events \<lparr>pending = [[0x00, 0xCC, 0x03, 0x07, 0x07]], trace = []\<rparr>
      (snd (read_memory_block \<lparr>pending = [[0x00, 0xCC, 0x03, 0x07, 0x07]], trace = []\<rparr>
             0x10000000 1)) ! 3 = Read [0x00, 0xCC, 0x03, 0x07, 0x07]
   \<and> new_events \<lparr>pending = [[0x00, 0xCC, 0x03, 0x07, 0x07]], trace = []\<rparr>
      (snd (read_memory_block \<lparr>pending = [[0x00, 0xCC, 0x03, 0x07, 0x07]], trace = []\<rparr>
             0x10000000 1)) ! 4 = Write [0x00, 0xCC]
   \<and> new_events \<lparr>pending = [[0x00, 0xCC, 0x03, 0x07, 0x07]], trace = []\<rparr>
      (snd (read_memory_block \<lparr>pending = [[0x00, 0xCC, 0x03, 0x07, 0x07]], trace = []\<rparr>
             0x10000000 1)) ! 4 \<noteq> Write [0xCC]"
  by (simp add: read_memory_block_def packet_of_def payload_of_def to_bytes4_def bytearray_of_def
      chk_of_def new_events_def get_status_def ser_flushInput_def ser_write_def
      sleep_def read_in_waiting_def reply_def status_val_def status_name_def Let_def)

text \<open>
  Claim C8, amended. In every \<open>read_memory_block\<close> transaction whose request can be
  built, the calls on the port are: flush, write of the request, pause, read of the
  response, then exactly one write before the status query begins, and that write is the
  two-byte token \<open>00 CC\<close>. The status query follows with its own frame and its own
  single byte \<open>CC\<close>.
\<close>

theorem read_memory_block_ack:
  assumes "packet_of a n = Inr p"
  shows "new_events s (snd (read_memory_block s a n))
     = [FlushInput, Write p, Sleep, Read (reply s 0), Write [0x00, 0xCC]]
       @ [FlushInput, Write [0x03, 0x23, 0x23], Sleep, Read (reply s 1), Write [0xCC]]"
  using assms by (simp add: read_memory_block_run new_events_def)

theorem read_memory_block_ack_witness:
  "new_events \<lparr>pending = [[0x00, 0xCC, 0x03, 0x07, 0x07]], trace = []\<rparr>
      (snd (read_memory_block \<lparr>pending = [[0x00, 0xCC, 0x03, 0x07, 0x07]], trace = []\<rparr>
             0x10000000 1))
     = [FlushInput, Write [9, 0x3B, 0x2A, 0x10, 0x00, 0x00, 0x00, 0x00, 0x01], Sleep,
        Read [0x00, 0xCC, 0x03, 0x07, 0x07], Write [0x00, 0xCC],
        FlushInput, Write [0x03, 0x23, 0x23], Sleep, Read [], Write [0xCC]]"
proof -
  have "packet_of 0x10000000 1 = Inr [9, 0x3B, 0x2A, 0x10, 0x00, 0x00, 0x00, 0x00, 0x01]"
    by (simp add: packet_of_def payload_of_def to_bytes4_def bytearray_of_def chk_of_def)
  from read_memory_block_ack [OF this,
      of "\<lparr>pending = [[0x00, 0xCC, 0x03, 0x07, 0x07]], trace = []\<rparr>"]
  show ?thesis by (simp add: reply_def)
qed

subsection \<open>The checksum\<close>

lemma sum_list_changes:
  fixes body :: "byte list"
  assumes "i < length body" "v \<noteq> body ! i"
  shows "sum_list (body[i := v]) \<noteq> sum_list body"
proof
  assume "sum_list (body[i := v]) = sum_list body"
  then have "sum_list body - body ! i + v = sum_list body"
    using assms(1) by (simp only: sum_list_upd)
  then have "v = body ! i"
    by (simp add: algebra_simps)
  with assms(2) show False by simp
qed

lemma packet_second_byte:
  assumes "packet_of a n = Inr p"
  shows "p ! 1 = word_of_int (chk_of (drop 2 p))"
proof -
  obtain body where "payload_of a n = Inr body"
    using assms by (cases "payload_of a n") (simp_all add: packet_of_payload)
  then have "p = [9, word_of_int (chk_of body)] @ body"
    using assms by (simp add: packet_of_payload)
  then show ?thesis
    by simp
qed

text \<open>
  Claim C7. The checksum depends on the frame body alone. Two \<open>read_memory_block\<close>
  calls with the same address and count write the same frame, whatever the state of the
  port and the replies of the device, and the second byte of that frame is the checksum
  of the bytes after the prefix. Replacing any one byte of a body by a different byte
  changes the checksum, as an integer and as the byte written.
\<close>

theorem checksum_pure_and_sensitive:
  "(packet_of a n = Inr p \<longrightarrow>
      hd (written (new_events s1 (snd (read_memory_block s1 a n)))) = p
      \<and> hd (written (new_events s2 (snd (read_memory_block s2 a n)))) = p
      \<and> p ! 1 = word_of_int (chk_of (drop 2 p)))
   \<and> (i < length body \<and> v \<noteq> body ! i \<longrightarrow>
        chk_of (body[i := v]) \<noteq> chk_of body
        \<and> (word_of_int (chk_of (body[i := v])) :: byte) \<noteq> word_of_int (chk_of body))"
proof -
  have pure: "hd (written (new_events s1 (snd (read_memory_block s1 a n)))) = p
      \<and> hd (written (new_events s2 (snd (read_memory_block s2 a n)))) = p
      \<and> p ! 1 = word_of_int (chk_of (drop 2 p))"
    if pk: "packet_of a n = Inr p"
    using packet_second_byte [OF pk] by (simp add: first_frame_written [OF pk])
  have sens: "chk_of (body[i := v]) \<noteq> chk_of body
        \<and> (word_of_int (chk_of (body[i := v])) :: byte) \<noteq> word_of_int (chk_of body)"
    if ch: "i < length body \<and> v \<noteq> body ! i"
  proof -
    have "sum_list (body[i := v]) \<noteq> sum_list body"
      using ch by (simp add: sum_list_changes)
    then have ne: "(word_of_int (chk_of (body[i := v])) :: byte) \<noteq> word_of_int (chk_of body)"
      by (simp only: chk_of_word not_False_eq_True)
    then have "chk_of (body[i := v]) \<noteq> chk_of body"
      by (rule contrapos_nn) (rule arg_cong)
    with ne show ?thesis by blast
  qed
  from pure sens show ?thesis by blast
qed

theorem checksum_pure_and_sensitive_witness:
  "hd (written (new_events \<lparr>pending = [], trace = []\<rparr>
         (snd (read_memory_block \<lparr>pending = [], trace = []\<rparr> 0x10000000 253))))
     = [9, 0x37, 0x2A, 0x10, 0x00, 0x00, 0x00, 0x00, 0xFD]
   \<and> hd (written (new_events \<lparr>pending = [[0x00, 0x33]], trace = [Sleep]\<rparr>
         (snd (read_memory_block \<lparr>pending = [[0x00, 0x33]], trace = [Sleep]\<rparr> 0x10000000 253))))
     = [9, 0x37, 0x2A, 0x10, 0x00, 0x00, 0x00, 0x00, 0xFD]
   \<and> chk_of [0x2A, 0x10, 0x00, 0x00, 0x00, 0x00, 0xFC]
       \<noteq> chk_of [0x2A, 0x10, 0x00, 0x00, 0x00, 0x00, 0xFD]"
proof -
  have pk: "packet_of 0x10000000 253 = Inr [9, 0x37, 0x2A, 0x10, 0x00, 0x00, 0x00, 0x00, 0xFD]"
    by (simp add: packet_of_def payload_of_def to_bytes4_def bytearray_of_def chk_of_def)
  have ch: "(6::nat) < length [0x2A, 0x10, 0x00, 0x00, 0x00, 0x00, 0xFD :: byte]
    \<and> (0xFC :: byte) \<noteq> [0x2A, 0x10, 0x00, 0x00, 0x00, 0x00, 0xFD] ! 6"
    by simp
  have upd: "[0x2A, 0x10, 0x00, 0x00, 0x00, 0x00, 0xFD :: byte][6 := 0xFC]
      = [0x2A, 0x10, 0x00, 0x00, 0x00, 0x00, 0xFC]"
    by (simp add: numeral_eq_Suc)
  note inst = checksum_pure_and_sensitive
      [of "0x10000000" 253 "[9, 0x37, 0x2A, 0x10, 0x00, 0x00, 0x00, 0x00, 0xFD]"
          "\<lparr>pending = [], trace = []\<rparr>" "\<lparr>pending = [[0x00, 0x33]], trace = [Sleep]\<rparr>"
          6 "[0x2A, 0x10, 0x00, 0x00, 0x00, 0x00, 0xFD]" "0xFC"]
  from inst pk ch show ?thesis
    unfolding upd by blast
qed

subsection \<open>The status check of a block read\<close>

lemma status_name_known:
  "status_name 0x41 = Inr ''COMMAND_RET_UNKNOWN_CMD''"
  "status_name 0x42 = Inr ''COMMAND_RET_INVALID_CMD''"
  "status_name 0x43 = Inr ''COMMAND_RET_INVALID_ADR''"
  "status_name 0x44 = Inr ''COMMAND_RET_FLASH_FAIL''"
  by (simp_all add: status_name_def status_val_def)

lemma status_name_cases:
  "(\<exists>m. status_name st = Inl (ValueError m)) \<or> (\<exists>name. status_name st = Inr name)"
  by (simp add: status_name_def split: option.splits)

lemma read_memory_block_result:
  assumes "packet_of a n = Inr p"
  shows "fst (read_memory_block s a n) =
     (if reply s 1 = [] then Inl (IndexError ''list index out of range'')
      else if last (reply s 1) \<noteq> 0x40 then
        (case status_name (last (reply s 1)) of
           Inl e \<Rightarrow> Inl e
         | Inr name \<Rightarrow> Inl (ValueError (''ERROR! status:'' @ name)))
      else if int (length (py_slice (reply s 0) (bytes_find (reply s 0) 0xCC + 3)
                             (bytes_find (reply s 0) 0xCC + 3 + n))) = n
      then Inr (py_slice (reply s 0) (bytes_find (reply s 0) 0xCC + 3)
                  (bytes_find (reply s 0) 0xCC + 3 + n))
      else Inl (AssertionError ''Did not receive all bytes...''))"
  using assms by (simp add: read_memory_block_run Let_def)

lemma packet_of_count_range:
  assumes "packet_of a n = Inr p"
  shows "0 \<le> n \<and> n < 256"
  using assms
  by (auto simp add: packet_of_payload payload_of_def bytearray_of_def
      split: sum.splits if_splits)

lemma get_status_after_data:
  "get_status (s\<lparr>pending := tl (pending s), trace := t\<rparr>)
   = (if reply s 1 = [] then Inl (IndexError ''list index out of range'')
      else Inr (last (reply s 1)),
      s\<lparr>pending := tl (tl (pending s)),
        trace := t @ [FlushInput, Write [0x03, 0x23, 0x23], Sleep, Read (reply s 1), Write [0xCC]]\<rparr>)"
  by (simp add: get_status_run reply_trace_upd reply_pending_tl)

text \<open>
  Claim C4. In every \<open>read_memory_block\<close> call whose request can be built, once the data
  transfer is over (request written, response read, acknowledgment written) the client
  calls \<open>get_status()\<close>. Whenever the status returned differs from \<open>0x40\<close>
  (SUCCESS) the call fails with the error of the status check (a \<open>ValueError\<close> in the
  code), whatever the response held, so also when all payload bytes were received. The
  message names the status: \<open>COMMAND_RET_UNKNOWN_CMD\<close>, \<open>COMMAND_RET_INVALID_CMD\<close>,
  \<open>COMMAND_RET_INVALID_ADR\<close> or \<open>COMMAND_RET_FLASH_FAIL\<close> for \<open>0x41\<close> to \<open>0x44\<close>.
\<close>

theorem read_memory_block_status_check:
  assumes "packet_of a n = Inr p"
  shows "(let s5 = s\<lparr>pending := tl (pending s),
                     trace := trace s @ [FlushInput, Write p, Sleep, Read (reply s 0),
                                         Write [0x00, 0xCC]]\<rparr>
          in snd (read_memory_block s a n) = snd (get_status s5)
             \<and> (\<forall>st. fst (get_status s5) = Inr st \<and> st \<noteq> 0x40 \<longrightarrow>
                   (\<exists>m. fst (read_memory_block s a n) = Inl (ValueError m))
                   \<and> (\<forall>name. status_name st = Inr name \<longrightarrow>
                        fst (read_memory_block s a n)
                          = Inl (ValueError (''ERROR! status:'' @ name)))
                   \<and> (st = 0x41 \<longrightarrow> fst (read_memory_block s a n)
                          = Inl (ValueError ''ERROR! status:COMMAND_RET_UNKNOWN_CMD''))
                   \<and> (st = 0x42 \<longrightarrow> fst (read_memory_block s a n)
                          = Inl (ValueError ''ERROR! status:COMMAND_RET_INVALID_CMD''))
                   \<and> (st = 0x43 \<longrightarrow> fst (read_memory_block s a n)
                          = Inl (ValueError ''ERROR! status:COMMAND_RET_INVALID_ADR''))
                   \<and> (st = 0x44 \<longrightarrow> fst (read_memory_block s a n)
                          = Inl (ValueError ''ERROR! status:COMMAND_RET_FLASH_FAIL''))))"
proof -
  let ?s5 = "s\<lparr>pending := tl (pending s),
                trace := trace s @ [FlushInput, Write p, Sleep, Read (reply s 0),
                                    Write [0x00, 0xCC]]\<rparr>"
  have port: "snd (read_memory_block s a n) = snd (get_status ?s5)"
    by (simp add: read_memory_block_run [OF assms] get_status_after_data)
  have fails: "(\<exists>m. fst (read_memory_block s a n) = Inl (ValueError m))
        \<and> (\<forall>name. status_name st = Inr name \<longrightarrow>
              fst (read_memory_block s a n) = Inl (ValueError (''ERROR! status:'' @ name)))"
    if st: "fst (get_status ?s5) = Inr st \<and> st \<noteq> 0x40" for st
  proof -
    have ne: "reply s 1 \<noteq> []" and l: "last (reply s 1) = st"
      using st by (auto simp add: get_status_after_data split: if_splits)
    have res: "fst (read_memory_block s a n) =
        (case status_name st of Inl e \<Rightarrow> Inl e
         | Inr name \<Rightarrow> Inl (ValueError (''ERROR! status:'' @ name)))"
      using st ne l by (simp add: read_memory_block_result [OF assms])
    show ?thesis
      using status_name_cases [of st] by (auto simp add: res)
  qed
  have named: "(st = 0x41 \<longrightarrow> fst (read_memory_block s a n)
                          = Inl (ValueError ''ERROR! status:COMMAND_RET_UNKNOWN_CMD''))
                   \<and> (st = 0x42 \<longrightarrow> fst (read_memory_block s a n)
                          = Inl (ValueError ''ERROR! status:COMMAND_RET_INVALID_CMD''))
                   \<and> (st = 0x43 \<longrightarrow> fst (read_memory_block s a n)
                          = Inl (ValueError ''ERROR! status:COMMAND_RET_INVALID_ADR''))
                   \<and> (st = 0x44 \<longrightarrow> fst (read_memory_block s a n)
                          = Inl (ValueError ''ERROR! status:COMMAND_RET_FLASH_FAIL''))"
    if st: "fst (get_status ?s5) = Inr st \<and> st \<noteq> 0x40" for st
    using fails [OF st] status_name_known by auto
  show ?thesis
    unfolding Let_def using port fails named by blast
qed

theorem read_memory_block_status_check_witness:
  "fst (read_memory_block
          \<lparr>pending = [[0x00, 0xCC, 0x05, 0x06, 0x01, 0x02, 0x03], [0x00, 0xCC, 0x03, 0x43, 0x43]],
           trace = []\<rparr> 0x10000000 3)
     = Inl (ValueError ''ERROR! status:COMMAND_RET_INVALID_ADR'')
   \<and> (\<exists>m. fst (read_memory_block
          \<lparr>pending = [[0x00, 0xCC, 0x05, 0x06, 0x01, 0x02, 0x03], [0x00, 0xCC]],
           trace = []\<rparr> 0x10000000 3) = Inl (ValueError m))"
proof -
  have pk: "packet_of 0x10000000 3 = Inr [9, 0x3D, 0x2A, 0x10, 0x00, 0x00, 0x00, 0x00, 0x03]"
    by (simp add: packet_of_def payload_of_def to_bytes4_def bytearray_of_def chk_of_def)
  have s1: "fst (get_status
       \<lparr>pending = [[0x00, 0xCC, 0x03, 0x43, 0x43]],
        trace = [FlushInput, Write [9, 0x3D, 0x2A, 0x10, 0x00, 0x00, 0x00, 0x00, 0x03], Sleep,
                 Read [0x00, 0xCC, 0x05, 0x06, 0x01, 0x02, 0x03], Write [0x00, 0xCC]]\<rparr>)
      = Inr 0x43"
    by (simp add: get_status_run reply_def)
  have s2: "fst (get_status
       \<lparr>pending = [[0x00, 0xCC]],
        trace = [FlushInput, Write [9, 0x3D, 0x2A, 0x10, 0x00, 0x00, 0x00, 0x00, 0x03], Sleep,
                 Read [0x00, 0xCC, 0x05, 0x06, 0x01, 0x02, 0x03], Write [0x00, 0xCC]]\<rparr>)
      = Inr 0xCC"
    by (simp add: get_status_run reply_def)
  have a: "fst (read_memory_block
          \<lparr>pending = [[0x00, 0xCC, 0x05, 0x06, 0x01, 0x02, 0x03], [0x00, 0xCC, 0x03, 0x43, 0x43]],
           trace = []\<rparr> 0x10000000 3)
     = Inl (ValueError ''ERROR! status:COMMAND_RET_INVALID_ADR'')"
    using read_memory_block_status_check [OF pk,
        of "\<lparr>pending = [[0x00, 0xCC, 0x05, 0x06, 0x01, 0x02, 0x03],
                           [0x00, 0xCC, 0x03, 0x43, 0x43]], trace = []\<rparr>"] s1
    by (simp add: Let_def reply_def)
  have b: "\<exists>m. fst (read_memory_block
          \<lparr>pending = [[0x00, 0xCC, 0x05, 0x06, 0x01, 0x02, 0x03], [0x00, 0xCC]],
           trace = []\<rparr> 0x10000000 3) = Inl (ValueError m)"
    using read_memory_block_status_check [OF pk,
        of "\<lparr>pending = [[0x00, 0xCC, 0x05, 0x06, 0x01, 0x02, 0x03],
                           [0x00, 0xCC]], trace = []\<rparr>"] s2
    by (simp add: Let_def reply_def)
  from a b show ?thesis ..
qed

subsection \<open>The payload of a block read\<close>

lemma payload_slice:
  assumes "packet_of a n = Inr p"
  shows "py_slice resp (bytes_find resp 0xCC + 3) (bytes_find resp 0xCC + 3 + n)
         = take (nat n) (drop (nat (bytes_find resp 0xCC + 3)) resp)"
proof -
  have "0 \<le> bytes_find resp 0xCC + 3"
    using bytes_find_lower [of resp "0xCC"] by simp
  moreover have "0 \<le> n"
    using packet_of_count_range [OF assms] by simp
  ultimately show ?thesis
    by (rule py_slice_forward)
qed

text \<open>
  Claim C6. For every response buffer, \<open>read_memory_block\<close> takes its payload from the
  index \<open>ind + 3\<close>, where \<open>ind\<close> is what the marker search returns, and slices \<open>count\<close>
  bytes from there; when the buffer holds a byte \<open>0xCC\<close>, \<open>ind\<close> is the position of the
  first one. When the payload has fewer bytes than \<open>count\<close> the call fails; the status
  check comes first, and once it has passed the failure is the assertion error of the
  incomplete transfer. With the status passed and all bytes there, the payload is
  returned.
\<close>

theorem read_memory_block_payload:
  assumes "packet_of a n = Inr p"
  shows "(let resp = reply s 0;
              ind = bytes_find resp 0xCC;
              payload = take (nat n) (drop (nat (ind + 3)) resp);
              status_ok = (reply s 1 \<noteq> [] \<and> last (reply s 1) = 0x40)
          in (0xCC \<in> set resp \<longrightarrow>
                0 \<le> ind \<and> resp ! nat ind = 0xCC \<and> (\<forall>j < nat ind. resp ! j \<noteq> 0xCC))
             \<and> (status_ok \<and> int (length payload) = n \<longrightarrow>
                  fst (read_memory_block s a n) = Inr payload)
             \<and> (int (length payload) \<noteq> n \<longrightarrow>
                  (\<exists>e. fst (read_memory_block s a n) = Inl e))
             \<and> (status_ok \<and> int (length payload) \<noteq> n \<longrightarrow>
                  fst (read_memory_block s a n)
                    = Inl (AssertionError ''Did not receive all bytes...'')))"
proof -
  let ?resp = "reply s 0"
  let ?ind = "bytes_find ?resp 0xCC"
  let ?payload = "take (nat n) (drop (nat (?ind + 3)) ?resp)"
  have marker: "0 \<le> ?ind \<and> ?resp ! nat ?ind = 0xCC \<and> (\<forall>j < nat ?ind. ?resp ! j \<noteq> 0xCC)"
    if "0xCC \<in> set ?resp"
    using first_marker [OF that] by (simp add: bytes_find_present [OF that])
  note res = read_memory_block_result [OF assms, of s, unfolded payload_slice [OF assms]]
  have ok: "fst (read_memory_block s a n) = Inr ?payload"
    if "(reply s 1 \<noteq> [] \<and> last (reply s 1) = 0x40) \<and> int (length ?payload) = n"
    using that by (simp add: res)
  have short: "fst (read_memory_block s a n) = Inl (AssertionError ''Did not receive all bytes...'')"
    if "(reply s 1 \<noteq> [] \<and> last (reply s 1) = 0x40) \<and> int (length ?payload) \<noteq> n"
    using that by (simp add: res)
  have fails: "\<exists>e. fst (read_memory_block s a n) = Inl e"
    if "int (length ?payload) \<noteq> n"
    using that by (simp add: res split: sum.splits)
  show ?thesis
    unfolding Let_def using marker ok short fails by blast
qed

theorem read_memory_block_payload_witness:
  "fst (read_memory_block
          \<lparr>pending = [[0x00, 0xCC, 0x05, 0x06, 0x01, 0x02, 0x03], [0x00, 0xCC, 0x03, 0x40, 0x40]],
           trace = []\<rparr> 0x10000000 3) = Inr [0x01, 0x02, 0x03]
   \<and> fst (read_memory_block
          \<lparr>pending = [[0x00, 0xCC, 0x05, 0x06, 0x01, 0x02], [0x00, 0xCC, 0x03, 0x40, 0x40]],
           trace = []\<rparr> 0x10000000 3) = Inl (AssertionError ''Did not receive all bytes...'')"
proof -
  have pk: "packet_of 0x10000000 3 = Inr [9, 0x3D, 0x2A, 0x10, 0x00, 0x00, 0x00, 0x00, 0x03]"
    by (simp add: packet_of_def payload_of_def to_bytes4_def bytearray_of_def chk_of_def)
  have a: "fst (read_memory_block
          \<lparr>pending = [[0x00, 0xCC, 0x05, 0x06, 0x01, 0x02, 0x03], [0x00, 0xCC, 0x03, 0x40, 0x40]],
           trace = []\<rparr> 0x10000000 3) = Inr [0x01, 0x02, 0x03]"
    using read_memory_block_payload [OF pk,
        of "\<lparr>pending = [[0x00, 0xCC, 0x05, 0x06, 0x01, 0x02, 0x03],
                           [0x00, 0xCC, 0x03, 0x40, 0x40]], trace = []\<rparr>"]
    by (simp add: Let_def reply_def)
  have b: "fst (read_memory_block
          \<lparr>pending = [[0x00, 0xCC, 0x05, 0x06, 0x01, 0x02], [0x00, 0xCC, 0x03, 0x40, 0x40]],
           trace = []\<rparr> 0x10000000 3) = Inl (AssertionError ''Did not receive all bytes...'')"
    using read_memory_block_payload [OF pk,
        of "\<lparr>pending = [[0x00, 0xCC, 0x05, 0x06, 0x01, 0x02],
                           [0x00, 0xCC, 0x03, 0x40, 0x40]], trace = []\<rparr>"]
    by (simp add: Let_def reply_def)
  from a b show ?thesis ..
qed

subsection \<open>A response without the marker\<close>

text \<open>
  Claim C9. For every response buffer without any byte \<open>0xCC\<close>, the marker search
  returns \<open>-1\<close> and no error is raised for it: the payload is sliced from offset 2 of the
  raw buffer. The call then fails only through the status query (empty status response or
  a status other than SUCCESS) or through the length check of the payload, and otherwise
  returns the bytes from offset 2.
\<close>

theorem read_memory_block_no_marker:
  assumes "packet_of a n = Inr p" and "0xCC \<notin> set (reply s 0)"
  shows "bytes_find (reply s 0) 0xCC = - 1
     \<and> fst (read_memory_block s a n) =
         (if reply s 1 = [] then Inl (IndexError ''list index out of range'')
          else if last (reply s 1) \<noteq> 0x40 then
            (case status_name (last (reply s 1)) of
               Inl e \<Rightarrow> Inl e
             | Inr name \<Rightarrow> Inl (ValueError (''ERROR! status:'' @ name)))
          else if int (length (take (nat n) (drop 2 (reply s 0)))) = n
          then Inr (take (nat n) (drop 2 (reply s 0)))
          else Inl (AssertionError ''Did not receive all bytes...''))"
proof -
  have ind: "bytes_find (reply s 0) 0xCC = - 1"
    using assms(2) by (rule bytes_find_absent)
  have "py_slice (reply s 0) (bytes_find (reply s 0) 0xCC + 3) (bytes_find (reply s 0) 0xCC + 3 + n)
        = take (nat n) (drop 2 (reply s 0))"
    using payload_slice [OF assms(1), of "reply s 0"] unfolding ind by simp
  then have "py_slice (reply s 0) (- 1 + 3) (- 1 + 3 + n) = take (nat n) (drop 2 (reply s 0))"
    unfolding ind .
  then show ?thesis
    unfolding read_memory_block_result [OF assms(1)] ind by simp
qed

theorem read_memory_block_no_marker_witness:
  "fst (read_memory_block
          \<lparr>pending = [[0x01, 0x02, 0x03, 0x04, 0x05], [0x40]], trace = []\<rparr> 0x10000000 3)
     = Inr [0x03, 0x04, 0x05]
   \<and> fst (read_memory_block
          \<lparr>pending = [[], [0x40]], trace = []\<rparr> 0x10000000 3)
     = Inl (AssertionError ''Did not receive all bytes...'')"
proof -
  have pk: "packet_of 0x10000000 3 = Inr [9, 0x3D, 0x2A, 0x10, 0x00, 0x00, 0x00, 0x00, 0x03]"
    by (simp add: packet_of_def payload_of_def to_bytes4_def bytearray_of_def chk_of_def)
  have a: "fst (read_memory_block
          \<lparr>pending = [[0x01, 0x02, 0x03, 0x04, 0x05], [0x40]], trace = []\<rparr> 0x10000000 3)
     = Inr [0x03, 0x04, 0x05]"
    using read_memory_block_no_marker [OF pk,
        of "\<lparr>pending = [[0x01, 0x02, 0x03, 0x04, 0x05], [0x40]], trace = []\<rparr>"]
    by (simp add: reply_def)
  have b: "fst (read_memory_block
          \<lparr>pending = [[], [0x40]], trace = []\<rparr> 0x10000000 3)
     = Inl (AssertionError ''Did not receive all bytes...'')"
    using read_memory_block_no_marker [OF pk, of "\<lparr>pending = [[], [0x40]], trace = []\<rparr>"]
    by (simp add: reply_def)
  from a b show ?thesis ..
qed

subsection \<open>Reading a region block by block\<close>

lemma read_each_append:
  "read_each s (xs @ ys) =
     (case read_each s xs of
        (Inl e, s') \<Rightarrow> (Inl e, s')
      | (Inr bs, s') \<Rightarrow>
          (case read_each s' ys of
             (Inl e, s'') \<Rightarrow> (Inl e, s'')
           | (Inr cs, s'') \<Rightarrow> (Inr (bs @ cs), s'')))"
proof (induction xs arbitrary: s)
  case Nil
  show ?case by (simp split: prod.splits sum.splits)
next
  case (Cons x xs)
  obtain a n where x: "x = (a, n)" by (cases x)
  show ?case
    unfolding x by (simp add: Cons.IH split: prod.splits sum.splits)
qed

lemma full_block_plan_Suc:
  "map (\<lambda>i. (addr + 253 * int i, 253 :: int)) [0 ..< Suc k]
   = (addr, 253) # map (\<lambda>i. (addr + 253 + 253 * int i, 253)) [0 ..< k]"
proof -
  have "[0 ..< Suc k] = 0 # map Suc [0 ..< k]"
    by (simp only: map_Suc_upt upt_conv_Cons [OF zero_less_Suc])
  then show ?thesis
    by (simp add: comp_def algebra_simps)
qed

lemma read_full_blocks_each:
  "read_full_blocks s k addr data =
     (case read_each s (map (\<lambda>i. (addr + 253 * int i, 253)) [0 ..< k]) of
        (Inl e, s') \<Rightarrow> (Inl e, s')
      | (Inr blocks, s') \<Rightarrow> (Inr (addr + 253 * int k, data @ concat blocks), s'))"
proof (induction k arbitrary: s addr data)
  case 0
  show ?case by simp
next
  case (Suc k)
  show ?case
    unfolding full_block_plan_Suc
    by (simp add: Suc.IH algebra_simps split: prod.splits sum.splits)
qed

lemma read_each_single:
  "read_each s [(a, n)] =
     (case read_memory_block s a n of
        (Inl e, s') \<Rightarrow> (Inl e, s')
      | (Inr block, s') \<Rightarrow> (Inr [block], s'))"
  by (simp split: prod.splits sum.splits)

lemma read_memory_region_each:
  assumes "start \<le> stop"
  shows "read_memory_region s start stop =
     (case read_each s (block_plan start stop) of
        (Inl e, s') \<Rightarrow> (Inl e, s')
      | (Inr blocks, s') \<Rightarrow> (Inr (concat blocks), s'))"
proof -
  define q where "q = (stop - start) div 253"
  define full where "full = map (\<lambda>i. (start + 253 * int i, 253 :: int)) [0 ..< nat q]"
  have q: "0 \<le> q"
    using assms unfolding q_def by simp
  have a: "start + 253 * int (nat q) = start + 253 * q"
    using q by simp
  have r: "stop - (start + 253 * q) = (stop - start) mod 253"
    unfolding q_def by (simp add: minus_div_mult_eq_mod [symmetric] algebra_simps)
  have plan: "block_plan start stop = full @ [(start + 253 * q, (stop - start) mod 253)]"
    unfolding block_plan_def full_def q_def ..
  have region: "read_memory_region s start stop =
      (case read_full_blocks s (nat q) start [] of
            (Inl e, s') \<Rightarrow> (Inl e, s')
          | (Inr (addr_start', data), s') \<Rightarrow>
              (case read_memory_block s' addr_start' (stop - addr_start') of
                 (Inl e, s'') \<Rightarrow> (Inl e, s'')
               | (Inr block, s'') \<Rightarrow> (Inr (data @ block), s'')))"
    unfolding read_memory_region_def Let_def q_def ..
  obtain res s' where each: "read_each s full = (res, s')"
    by (cases "read_each s full")
  show ?thesis
  proof (cases res)
    case (Inl e)
    then show ?thesis
      unfolding region plan read_each_append read_full_blocks_each full_def [symmetric] each
      by simp
  next
    case (Inr blocks)
    then show ?thesis
      unfolding region plan read_each_append read_full_blocks_each full_def [symmetric] each
        read_each_single
      by (simp add: q r split: prod.splits sum.splits)
  qed
qed

lemma written_append: "written (xs @ ys) = written xs @ written ys"
  by (induction xs rule: written.induct) simp_all

lemma read_memory_block_success:
  assumes "fst (read_memory_block s a n) = Inr block"
  shows "int (length block) = n
     \<and> (\<exists>es. trace (snd (read_memory_block s a n)) = trace s @ es
               \<and> written es = block_frames (a, n))"
proof (cases "packet_of a n")
  case (Inl e)
  then show ?thesis
    using assms by (simp add: read_memory_block_reject)
next
  case (Inr p)
  have "int (length block) = n"
    using assms unfolding read_memory_block_result [OF Inr]
    by (auto split: if_splits sum.splits)
  moreover have "trace (snd (read_memory_block s a n))
      = trace s @ [FlushInput, Write p, Sleep, Read (reply s 0), Write [0x00, 0xCC],
                   FlushInput, Write [0x03, 0x23, 0x23], Sleep, Read (reply s 1), Write [0xCC]]"
    by (simp add: read_memory_block_run [OF Inr])
  moreover have "written [FlushInput, Write p, Sleep, Read (reply s 0), Write [0x00, 0xCC],
                   FlushInput, Write [0x03, 0x23, 0x23], Sleep, Read (reply s 1), Write [0xCC]]
      = block_frames (a, n)"
    by (simp add: block_frames_def Inr)
  ultimately show ?thesis by blast
qed

lemma read_each_success:
  assumes "fst (read_each s plan) = Inr blocks"
  shows "map (int \<circ> length) blocks = map snd plan
     \<and> (\<exists>es. trace (snd (read_each s plan)) = trace s @ es
               \<and> written es = concat (map block_frames plan))"
  using assms
proof (induction plan arbitrary: s blocks)
  case Nil
  then show ?case by auto
next
  case (Cons x plan)
  obtain a n where x: "x = (a, n)" by (cases x)
  obtain r1 s1 where one: "read_memory_block s a n = (r1, s1)"
    by (cases "read_memory_block s a n")
  obtain r2 s2 where rest: "read_each s1 plan = (r2, s2)"
    by (cases "read_each s1 plan")
  from Cons.prems obtain block bs where
    r1: "r1 = Inr block" and r2: "r2 = Inr bs" and blocks: "blocks = block # bs"
    unfolding x by (auto simp add: one rest split: sum.splits)
  have "fst (read_memory_block s a n) = Inr block"
    by (simp add: one r1)
  from read_memory_block_success [OF this]
  obtain es1 where b: "int (length block) = n"
    and es1: "trace s1 = trace s @ es1" "written es1 = block_frames (a, n)"
    unfolding one snd_conv by blast
  have "fst (read_each s1 plan) = Inr bs"
    by (simp add: rest r2)
  from Cons.IH [OF this]
  obtain es2 where bs: "map (int \<circ> length) bs = map snd plan"
    and es2: "trace s2 = trace s1 @ es2" "written es2 = concat (map block_frames plan)"
    unfolding rest snd_conv by blast
  have s2: "snd (read_each s (x # plan)) = s2"
    unfolding x by (simp add: one rest r1 r2)
  have "trace s2 = trace s @ (es1 @ es2)"
    by (simp add: es1 es2)
  moreover have "written (es1 @ es2) = concat (map block_frames (x # plan))"
    by (simp add: written_append es1 es2 x)
  ultimately have "\<exists>es. trace (snd (read_each s (x # plan))) = trace s @ es
               \<and> written es = concat (map block_frames (x # plan))"
    unfolding s2 by blast
  moreover have "map (int \<circ> length) blocks = map snd (x # plan)"
    by (simp add: blocks b bs x)
  ultimately show ?case by blast
qed

lemma length_concat_int:
  "int (length (concat blocks)) = sum_list (map (int \<circ> length) blocks)"
  by (induction blocks) simp_all

lemma full_plan_sum:
  "sum_list (map snd (map (\<lambda>i. (start + 253 * int i, 253 :: int)) [0 ..< k])) = 253 * int k"
  by (induction k) simp_all

lemma block_plan_sum:
  assumes "start \<le> stop"
  shows "sum_list (map snd (block_plan start stop)) = stop - start"
proof -
  have "0 \<le> (stop - start) div 253"
    using assms by simp
  then have "253 * int (nat ((stop - start) div 253)) + (stop - start) mod 253 = stop - start"
    by simp
  then show ?thesis
    unfolding block_plan_def by (simp only: map_append sum_list_append full_plan_sum) simp
qed

lemma block_plan_rom:
  "block_plan 0x10000000 0x1001cc00
   = map (\<lambda>i. (0x10000000 + 253 * int i, 253)) [0 ..< 465] @ [(0x1001CB8D, 115)]"
  by (simp add: block_plan_def)

lemma read_memory_region_success:
  assumes "start \<le> stop" and "fst (read_memory_region s start stop) = Inr data"
  shows "int (length data) = stop - start
     \<and> written (new_events s (snd (read_memory_region s start stop)))
         = concat (map block_frames (block_plan start stop))"
proof -
  obtain res s' where each: "read_each s (block_plan start stop) = (res, s')"
    by (cases "read_each s (block_plan start stop)")
  from assms(2) obtain blocks where res: "res = Inr blocks" and data: "data = concat blocks"
    unfolding read_memory_region_each [OF assms(1)] each by (auto split: sum.splits)
  have port: "snd (read_memory_region s start stop) = s'"
    unfolding read_memory_region_each [OF assms(1)] each by (simp add: res)
  have "fst (read_each s (block_plan start stop)) = Inr blocks"
    by (simp add: each res)
  from read_each_success [OF this]
  obtain es where lens: "map (int \<circ> length) blocks = map snd (block_plan start stop)"
    and es: "trace s' = trace s @ es" "written es = concat (map block_frames (block_plan start stop))"
    unfolding each snd_conv by blast
  have "int (length data) = stop - start"
    unfolding data length_concat_int lens by (rule block_plan_sum [OF assms(1)])
  moreover have "new_events s s' = es"
    by (simp add: new_events_def es)
  ultimately show ?thesis
    unfolding port by (simp add: es)
qed

lemma read_each_answers:
  assumes "answers (pending s) plan"
    and "\<forall>(a, n) \<in> set plan. \<exists>p. packet_of a n = Inr p"
  shows "\<exists>blocks. fst (read_each s plan) = Inr blocks"
  using assms
proof (induction plan arbitrary: s)
  case Nil
  show ?case by simp
next
  case (Cons x plan)
  obtain a n where x: "x = (a, n)" by (cases x)
  from Cons.prems(1) obtain resp st rest where
    rs: "pending s = resp # st # rest"
    and st: "st \<noteq> []" "last st = 0x40"
    and len: "int (length (py_slice resp (bytes_find resp 0xCC + 3)
                              (bytes_find resp 0xCC + 3 + n))) = n"
    and rest: "answers rest plan"
    unfolding x by (auto split: list.splits)
  from Cons.prems(2) obtain p where p: "packet_of a n = Inr p"
    unfolding x by auto
  have r0: "reply s 0 = resp" and r1: "reply s 1 = st" "reply s (Suc 0) = st"
    by (simp_all add: reply_def rs)
  obtain s' where one: "read_memory_block s a n
      = (Inr (py_slice resp (bytes_find resp 0xCC + 3) (bytes_find resp 0xCC + 3 + n)), s')"
    and s': "pending s' = rest"
    by (simp add: read_memory_block_run [OF p] r0 r1 st len rs Let_def)
  have "answers (pending s') plan"
    by (simp add: s' rest)
  moreover have "\<forall>(a, n) \<in> set plan. \<exists>p. packet_of a n = Inr p"
    using Cons.prems(2) by simp
  ultimately obtain bs where "fst (read_each s' plan) = Inr bs"
    using Cons.IH by blast
  then show ?case
    unfolding x by (cases "read_each s' plan") (simp add: one)
qed

lemma block_plan_packets:
  assumes "0 \<le> start" "start \<le> stop" "stop < 2 ^ 32"
  shows "\<forall>(a, n) \<in> set (block_plan start stop). \<exists>p. packet_of a n = Inr p"
proof -
  define q where "q = (stop - start) div 253"
  have q: "0 \<le> q" and qle: "253 * q \<le> stop - start"
    using assms unfolding q_def by simp_all
  have ok: "\<exists>p. packet_of a n = Inr p" if "0 \<le> a" "a < 2 ^ 32" "0 \<le> n" "n < 256" for a n
    using that by (simp add: packet_of_payload payload_of_valid)
  have full: "\<exists>p. packet_of (start + 253 * int i) 253 = Inr p" if "i < nat q" for i
  proof (rule ok)
    show "0 \<le> start + 253 * int i" using assms by simp
    have "int i + 1 \<le> q" using that by simp
    then have "253 * int i + 253 \<le> 253 * q" by simp
    then show "start + 253 * int i < 2 ^ 32" using qle assms by simp
  qed simp_all
  have last: "\<exists>p. packet_of (start + 253 * q) ((stop - start) mod 253) = Inr p"
  proof (rule ok)
    show "0 \<le> start + 253 * q" using assms q by simp
    show "start + 253 * q < 2 ^ 32" using qle assms by simp
    show "0 \<le> (stop - start) mod 253" by simp
    have "(stop - start) mod 253 < 253" by simp
    then show "(stop - start) mod 253 < 256" by simp
  qed
  show ?thesis
    unfolding block_plan_def q_def [symmetric] using full last by auto
qed

lemma read_memory_region_answers:
  assumes "0 \<le> start" "start \<le> stop" "stop < 2 ^ 32"
    and "answers (pending s) (block_plan start stop)"
  shows "\<exists>data. fst (read_memory_region s start stop) = Inr data"
proof -
  obtain blocks where "fst (read_each s (block_plan start stop)) = Inr blocks"
    using read_each_answers [OF assms(4) block_plan_packets [OF assms(1-3)]] by blast
  then show ?thesis
    unfolding read_memory_region_each [OF assms(2)]
    by (cases "read_each s (block_plan start stop)") simp
qed

text \<open>
  Claim C1. For every pair with \<open>stop > start\<close>, \<open>read_memory_region(start, stop)\<close> does
  what the block reads of the plan do, one after the other: \<open>(stop - start) div 253\<close> reads
  of 253 bytes at \<open>start\<close>, \<open>start + 253\<close>, ..., then one read of the remainder. It
  returns exactly when all of them return, which they do, for addresses from 0 to below
  \<open>2^32\<close>, when the device answers each of them. Its result is then their results
  concatenated in that order, each of the length asked for, \<open>stop - start\<close> bytes in all,
  and the frames written are those of the planned reads in order. For the range
  \<open>0x10000000 .. 0x1001cc00\<close> the plan is 465 reads of 253 bytes and a last one of 115
  bytes, and the result has 117760 bytes.
\<close>

theorem read_memory_region_blocks:
  assumes "start < stop"
  shows "read_memory_region s start stop =
           (case read_each s (block_plan start stop) of
              (Inl e, s') \<Rightarrow> (Inl e, s')
            | (Inr blocks, s') \<Rightarrow> (Inr (concat blocks), s'))
     \<and> (\<forall>blocks. fst (read_each s (block_plan start stop)) = Inr blocks \<longrightarrow>
            map (int \<circ> length) blocks = map snd (block_plan start stop))
     \<and> (\<forall>data. fst (read_memory_region s start stop) = Inr data \<longrightarrow>
            int (length data) = stop - start
            \<and> written (new_events s (snd (read_memory_region s start stop)))
                = concat (map block_frames (block_plan start stop)))
     \<and> (0 \<le> start \<and> stop < 2 ^ 32 \<and> answers (pending s) (block_plan start stop) \<longrightarrow>
            (\<exists>data. fst (read_memory_region s start stop) = Inr data))
     \<and> block_plan 0x10000000 0x1001cc00
           = map (\<lambda>i. (0x10000000 + 253 * int i, 253)) [0 ..< 465] @ [(0x1001CB8D, 115)]
     \<and> (\<forall>data. fst (read_memory_region s 0x10000000 0x1001cc00) = Inr data \<longrightarrow>
            length data = 117760)"
proof -
  have returns: "\<exists>data. fst (read_memory_region s start stop) = Inr data"
    if "0 \<le> start \<and> stop < 2 ^ 32 \<and> answers (pending s) (block_plan start stop)"
    using that assms by (intro read_memory_region_answers) simp_all
  have le: "start \<le> stop"
    using assms by simp
  have lens: "map (int \<circ> length) blocks = map snd (block_plan start stop)"
    if "fst (read_each s (block_plan start stop)) = Inr blocks" for blocks
    using read_each_success [OF that] by blast
  have rom: "length data = 117760"
    if "fst (read_memory_region s 0x10000000 0x1001cc00) = Inr data" for data
  proof -
    have "int (length data) = 0x1001cc00 - 0x10000000"
      using read_memory_region_success [OF _ that] by simp
    then show ?thesis by simp
  qed
  show ?thesis
    using read_memory_region_each [OF le, of s] lens read_memory_region_success [OF le, of s]
      block_plan_rom rom returns
    by blast
qed

theorem read_memory_region_blocks_witness:
  "answers [0x00 # 0xCC # 0xFF # 0x12 # replicate 253 0xAA, [0x00, 0xCC, 0x03, 0x40, 0x40],
            [0x00, 0xCC, 0x04, 0x03, 0x01, 0x02], [0x40]]
     (block_plan 0x10000000 0x100000FF)
   \<and> fst (read_memory_region
            \<lparr>pending = [0x00 # 0xCC # 0xFF # 0x12 # replicate 253 0xAA,
                        [0x00, 0xCC, 0x03, 0x40, 0x40],
                        [0x00, 0xCC, 0x04, 0x03, 0x01, 0x02], [0x40]],
              trace = []\<rparr>
            0x10000000 0x100000FF)
       = Inr (replicate 253 0xAA @ [0x01, 0x02])
   \<and> int (length (replicate 253 (0xAA :: byte) @ [0x01, 0x02])) = 0x100000FF - 0x10000000
   \<and> written (new_events
            \<lparr>pending = [0x00 # 0xCC # 0xFF # 0x12 # replicate 253 0xAA,
                        [0x00, 0xCC, 0x03, 0x40, 0x40],
                        [0x00, 0xCC, 0x04, 0x03, 0x01, 0x02], [0x40]],
              trace = []\<rparr>
            (snd (read_memory_region
            \<lparr>pending = [0x00 # 0xCC # 0xFF # 0x12 # replicate 253 0xAA,
                        [0x00, 0xCC, 0x03, 0x40, 0x40],
                        [0x00, 0xCC, 0x04, 0x03, 0x01, 0x02], [0x40]],
              trace = []\<rparr>
            0x10000000 0x100000FF)))
       = [[9, 0x37, 0x2A, 0x10, 0x00, 0x00, 0x00, 0x00, 0xFD], [0x00, 0xCC],
          [0x03, 0x23, 0x23], [0xCC],
          [9, 0x39, 0x2A, 0x10, 0x00, 0x00, 0xFD, 0x00, 0x02], [0x00, 0xCC],
          [0x03, 0x23, 0x23], [0xCC]]"
proof -
  let ?s = "\<lparr>pending = [0x00 # 0xCC # 0xFF # 0x12 # replicate 253 0xAA,
                [0x00, 0xCC, 0x03, 0x40, 0x40],
                [0x00, 0xCC, 0x04, 0x03, 0x01, 0x02], [0x40]],
      trace = []\<rparr>"
  have p1: "packet_of 0x10000000 253 = Inr [9, 0x37, 0x2A, 0x10, 0x00, 0x00, 0x00, 0x00, 0xFD]"
    by (simp add: packet_of_def payload_of_def to_bytes4_def bytearray_of_def chk_of_def)
  have p2: "packet_of 0x100000FD 2 = Inr [9, 0x39, 0x2A, 0x10, 0x00, 0x00, 0xFD, 0x00, 0x02]"
    by (simp add: packet_of_def payload_of_def to_bytes4_def bytearray_of_def chk_of_def)
  have plan: "block_plan 0x10000000 0x100000FF = [(0x10000000, 253), (0x100000FD, 2)]"
    by (simp add: block_plan_def)
  have b1: "read_memory_block ?s 0x10000000 253
      = (Inr (replicate 253 0xAA),
         \<lparr>pending = [[0x00, 0xCC, 0x04, 0x03, 0x01, 0x02], [0x40]],
          trace = [FlushInput, Write [9, 0x37, 0x2A, 0x10, 0x00, 0x00, 0x00, 0x00, 0xFD], Sleep,
                   Read (0x00 # 0xCC # 0xFF # 0x12 # replicate 253 0xAA), Write [0x00, 0xCC],
                   FlushInput, Write [0x03, 0x23, 0x23], Sleep,
                   Read [0x00, 0xCC, 0x03, 0x40, 0x40], Write [0xCC]]\<rparr>)"
    by (simp add: read_memory_block_run [OF p1] reply_def py_slice_def Let_def)
  have b2: "fst (read_memory_block
         \<lparr>pending = [[0x00, 0xCC, 0x04, 0x03, 0x01, 0x02], [0x40]],
          trace = [FlushInput, Write [9, 0x37, 0x2A, 0x10, 0x00, 0x00, 0x00, 0x00, 0xFD], Sleep,
                   Read (0x00 # 0xCC # 0xFF # 0x12 # replicate 253 0xAA), Write [0x00, 0xCC],
                   FlushInput, Write [0x03, 0x23, 0x23], Sleep,
                   Read [0x00, 0xCC, 0x03, 0x40, 0x40], Write [0xCC]]\<rparr> 0x100000FD 2)
      = Inr [0x01, 0x02]"
    by (simp add: read_memory_block_run [OF p2] reply_def py_slice_def Let_def)
  have lt: "(0x10000000 :: int) < 0x100000FF"
    by simp
  note inst = read_memory_region_blocks [OF lt, of ?s]
  obtain s2 where b2': "read_memory_block
         \<lparr>pending = [[0x00, 0xCC, 0x04, 0x03, 0x01, 0x02], [0x40]],
          trace = [FlushInput, Write [9, 0x37, 0x2A, 0x10, 0x00, 0x00, 0x00, 0x00, 0xFD], Sleep,
                   Read (0x00 # 0xCC # 0xFF # 0x12 # replicate 253 0xAA), Write [0x00, 0xCC],
                   FlushInput, Write [0x03, 0x23, 0x23], Sleep,
                   Read [0x00, 0xCC, 0x03, 0x40, 0x40], Write [0xCC]]\<rparr> 0x100000FD 2
      = (Inr [0x01, 0x02], s2)"
    using b2 by (metis prod.collapse)
  have each: "read_each ?s [(0x10000000, 253), (0x100000FD, 2)]
      = (Inr [replicate 253 0xAA, [0x01, 0x02]], s2)"
    by (simp add: b1 b2')
  have run: "fst (read_memory_region ?s 0x10000000 0x100000FF)
      = Inr (replicate 253 0xAA @ [0x01, 0x02])"
    using inst unfolding plan each by simp
  have frames: "concat (map block_frames (block_plan 0x10000000 0x100000FF))
      = [[9, 0x37, 0x2A, 0x10, 0x00, 0x00, 0x00, 0x00, 0xFD], [0x00, 0xCC],
          [0x03, 0x23, 0x23], [0xCC],
          [9, 0x39, 0x2A, 0x10, 0x00, 0x00, 0xFD, 0x00, 0x02], [0x00, 0xCC],
          [0x03, 0x23, 0x23], [0xCC]]"
    unfolding plan by (simp add: block_frames_def p1 p2)
  have served: "answers [0x00 # 0xCC # 0xFF # 0x12 # replicate 253 0xAA,
            [0x00, 0xCC, 0x03, 0x40, 0x40], [0x00, 0xCC, 0x04, 0x03, 0x01, 0x02], [0x40]]
     (block_plan 0x10000000 0x100000FF)"
    unfolding plan by (simp add: py_slice_def Let_def)
  from inst run frames served show ?thesis
    by (metis length_append)
qed

end
